theory Spec2Isabelle
  imports Main
begin

section \<open>The batch-transfer orchestrator of useERC721MultiTransfer.ts\<close>

text \<open>
  The hook \<open>useERC721MultiTransfer\<close> keeps five pieces of React state (queue, currentIndex,
  isTransferring, completedTransfers, transferParams), three refs (processedHashesRef,
  lastExecutedIndexRef, isExecutingRef) and reads two collaborators: the wallet signer
  (\<open>useWriteContract\<close>) and the chain client (\<open>usePublicClient\<close>). Every callback and
  every effect body of the hook is a function from the committed state to the next state.
  Calls made to the collaborators are kept as histories: the signer's list of requests and the
  list of handles for which \<open>waitForTransactionReceipt\<close> was called.

  A callback closes over the state of the render that created it and reads the refs when it
  runs; state updates of the form \<open>setX(prev => ...)\<close> apply to the latest state. Each step
  below is taken on the committed state, which is what the closure of a callback or effect
  holds when it is called. The 50 ms timer of the advance effect is cleared by the effect's
  cleanup whenever a dependency changes, so its body runs on the state that started it. The
  100 ms timer of \<open>retry\<close> is never cleared: its body is a step of its own that carries the
  state of the render in which \<open>retry\<close> was called. The \<open>abi\<close> argument of
  \<open>writeContract\<close> is the constant \<open>erc721Abi\<close> and is left out of the request.
\<close>

subsection \<open>Data\<close>

datatype status = Pending | Success | Failed

text \<open>
  \<open>TransferResult\<close>. The field \<open>tokenId\<close> is read as \<open>queue[currentIndex]\<close>; JavaScript
  yields \<open>undefined\<close> for an index outside the array, which is \<open>None\<close> here.
\<close>

record TransferResult =
  tokenId :: "int option"
  hash :: string
  status :: status

text \<open>The argument of \<open>startTransfer\<close> (\<open>ERC721MultiTransferParams\<close>).\<close>

record ERC721MultiTransferParams =
  p_contractAddress :: string
  p_to :: string
  p_tokenIds :: "int list"

text \<open>The value of the \<open>transferParams\<close> state.\<close>

record TransferParams =
  tp_contractAddress :: string
  tp_to :: string
  tp_from :: string

text \<open>The variables of one \<open>writeContract\<close> call; \<open>args\<close> is \<open>[from, to, tokenId]\<close>.\<close>

record WriteRequest =
  address :: string
  functionName :: string
  args :: "string \<times> string \<times> int"

text \<open>
  Modelled from the spec: the external signer (wagmi's \<open>useWriteContract\<close>, a library outside
  the repository). The spec's interface section gives it a current handle, a current error and
  an awaiting-signature flag, a submit operation that later yields either a handle or an error,
  and a reset that clears error and result. \<open>requests\<close> is the history of submissions.
\<close>

record WriteContract =
  currentHash :: "string option"
  isPending :: bool
  writeError :: "string option"
  requests :: "WriteRequest list"

definition resetWrite :: "WriteContract \<Rightarrow> WriteContract" where
  "resetWrite w = w\<lparr>currentHash := None, isPending := False, writeError := None\<rparr>"

definition writeContract :: "WriteRequest \<Rightarrow> WriteContract \<Rightarrow> WriteContract" where
  "writeContract r w =
     w\<lparr>currentHash := None, isPending := True, writeError := None, requests := requests w @ [r]\<rparr>"

definition signerYieldsHash :: "string \<Rightarrow> WriteContract \<Rightarrow> WriteContract" where
  "signerYieldsHash h w = w\<lparr>currentHash := Some h, isPending := False\<rparr>"

definition signerYieldsError :: "string \<Rightarrow> WriteContract \<Rightarrow> WriteContract" where
  "signerYieldsError e w = w\<lparr>writeError := Some e, isPending := False\<rparr>"

text \<open>
  The state of one hook instance. \<open>currentIndex\<close> starts at 0 and is only ever incremented,
  so it is a natural number; \<open>lastExecutedIndexRef\<close> also takes the value \<open>-1\<close>.
  \<open>publicClient\<close> tells whether \<open>usePublicClient()\<close> returned a client; \<open>watched\<close> is the
  history of handles passed to \<open>waitForTransactionReceipt\<close>. A \<open>Hash\<close> is a string of the
  form \<open>0x...\<close>, never empty, so \<open>!currentHash\<close> holds exactly when there is no handle.
\<close>

record hook =
  queue :: "int list"
  currentIndex :: nat
  isTransferring :: bool
  completedTransfers :: "TransferResult list"
  transferParams :: "TransferParams option"
  processedHashesRef :: "string set"
  lastExecutedIndexRef :: int
  isExecutingRef :: bool
  signer :: WriteContract
  publicClient :: bool
  watched :: "string list"

definition js_index :: "'a list \<Rightarrow> nat \<Rightarrow> 'a option" where
  "js_index xs i = (if i < length xs then Some (xs ! i) else None)"

text \<open>A freshly mounted hook: the initial values of every \<open>useState\<close> and \<open>useRef\<close>.\<close>

definition fresh :: "bool \<Rightarrow> hook" where
  "fresh client =
     \<lparr>queue = [], currentIndex = 0, isTransferring = False, completedTransfers = [],
      transferParams = None, processedHashesRef = {}, lastExecutedIndexRef = - 1,
      isExecutingRef = False,
      signer = \<lparr>currentHash = None, isPending = False, writeError = None, requests = []\<rparr>,
      publicClient = client, watched = []\<rparr>"

subsection \<open>Derived views\<close>

definition currentTokenId :: "hook \<Rightarrow> int option" where
  "currentTokenId s = js_index (queue s) (currentIndex s)"

definition totalCount :: "hook \<Rightarrow> nat" where
  "totalCount s = length (queue s)"

definition allTransfersSubmitted :: "hook \<Rightarrow> bool" where
  "allTransfersSubmitted s \<longleftrightarrow> currentIndex s \<ge> totalCount s \<and> totalCount s > 0"

definition allTransfersConfirmed :: "hook \<Rightarrow> bool" where
  "allTransfersConfirmed s \<longleftrightarrow>
     length (completedTransfers s) = totalCount s \<and> totalCount s > 0 \<and>
     list_all (\<lambda>t. status t = Success \<or> status t = Failed) (completedTransfers s)"

definition isComplete :: "hook \<Rightarrow> bool" where
  "isComplete s = allTransfersConfirmed s"

definition pendingConfirmations :: "hook \<Rightarrow> nat" where
  "pendingConfirmations s = length (filter (\<lambda>t. status t = Pending) (completedTransfers s))"

definition isConfirming :: "hook \<Rightarrow> bool" where
  "isConfirming s \<longleftrightarrow> pendingConfirmations s > 0"

text \<open>The same views, written after the words of the specification (section 4.1).\<close>

definition spec_allSubmitted :: "hook \<Rightarrow> bool" where
  "spec_allSubmitted s \<longleftrightarrow> length (queue s) \<le> currentIndex s \<and> 0 < length (queue s)"

definition spec_allConfirmed :: "hook \<Rightarrow> bool" where
  "spec_allConfirmed s \<longleftrightarrow>
     length (completedTransfers s) = length (queue s) \<and> 0 < length (queue s) \<and>
     (\<forall>t \<in> set (completedTransfers s). status t \<noteq> Pending)"

fun spec_count_pending :: "TransferResult list \<Rightarrow> nat" where
  "spec_count_pending [] = 0"
| "spec_count_pending (t # ts) =
     (if status t = Pending then Suc (spec_count_pending ts) else spec_count_pending ts)"

subsection \<open>Callbacks and effects\<close>

text \<open>\<open>executeCurrentTransfer\<close> (lines 64-81).\<close>

definition executeCurrentTransfer :: "hook \<Rightarrow> hook" where
  "executeCurrentTransfer s =
     (case transferParams s of
        None \<Rightarrow> s
      | Some p \<Rightarrow>
          if currentIndex s \<ge> length (queue s) then s
          else if lastExecutedIndexRef s = int (currentIndex s) then s
          else if isExecutingRef s then s
          else s\<lparr>lastExecutedIndexRef := int (currentIndex s),
                 isExecutingRef := True,
                 signer := writeContract
                   \<lparr>address = tp_contractAddress p, functionName = ''safeTransferFrom'',
                    args = (tp_from p, tp_to p, queue s ! currentIndex s)\<rparr> (signer s)\<rparr>)"

text \<open>\<open>startTransfer\<close> (lines 84-104).\<close>

definition startTransfer :: "ERC721MultiTransferParams \<Rightarrow> string \<Rightarrow> hook \<Rightarrow> hook" where
  "startTransfer params sender s =
     (if length (p_tokenIds params) = 0 then s
      else s\<lparr>processedHashesRef := {},
             lastExecutedIndexRef := - 1,
             isExecutingRef := False,
             queue := p_tokenIds params,
             currentIndex := 0,
             isTransferring := True,
             completedTransfers := [],
             transferParams := Some \<lparr>tp_contractAddress = p_contractAddress params,
                                     tp_to = p_to params, tp_from = sender\<rparr>\<rparr>)"

text \<open>The effect that submits the first unit (lines 107-111).\<close>

definition autoExecuteFirst :: "hook \<Rightarrow> hook" where
  "autoExecuteFirst s =
     (if transferParams s \<noteq> None \<and> isTransferring s \<and> currentIndex s = 0 \<and>
         length (queue s) > 0 \<and> currentHash (signer s) = None \<and> \<not> isPending (signer s)
      then executeCurrentTransfer s else s)"

text \<open>The effect that reacts to a handle from the signer (lines 114-163).\<close>

definition hashArrival :: "hook \<Rightarrow> hook" where
  "hashArrival s =
     (case currentHash (signer s) of
        None \<Rightarrow> s
      | Some h \<Rightarrow>
          if \<not> isTransferring s \<or> currentIndex s \<ge> length (queue s) then s
          else if h \<in> processedHashesRef s then s
          else
            let nextIndex = currentIndex s + 1 in
            s\<lparr>processedHashesRef := insert h (processedHashesRef s),
              isExecutingRef := False,
              completedTransfers := completedTransfers s @
                [\<lparr>tokenId = js_index (queue s) (currentIndex s), hash = h, status = Pending\<rparr>],
              watched := (if publicClient s then watched s @ [h] else watched s),
              currentIndex := nextIndex,
              signer := (if nextIndex < length (queue s) then resetWrite (signer s)
                         else signer s)\<rparr>)"

text \<open>
  The two callbacks of a confirmation watch (lines 137-152): \<open>then\<close> on a receipt,
  \<open>catch\<close> on a rejection. Both map over the records and replace the status of every record
  with the watched handle.
\<close>

definition receiptResolved :: "string \<Rightarrow> hook \<Rightarrow> hook" where
  "receiptResolved hashToWatch s =
     s\<lparr>completedTransfers :=
         map (\<lambda>t. if hash t = hashToWatch then t\<lparr>status := Success\<rparr> else t)
           (completedTransfers s)\<rparr>"

definition receiptRejected :: "string \<Rightarrow> hook \<Rightarrow> hook" where
  "receiptRejected hashToWatch s =
     s\<lparr>completedTransfers :=
         map (\<lambda>t. if hash t = hashToWatch then t\<lparr>status := Failed\<rparr> else t)
           (completedTransfers s)\<rparr>"

text \<open>
  The effect that submits the following units (lines 166-177); the body of its 50 ms timer is
  \<open>executeCurrentTransfer\<close>.
\<close>

definition executeNext :: "hook \<Rightarrow> hook" where
  "executeNext s =
     (if \<not> isTransferring s \<or> currentIndex s = 0 \<or> currentIndex s \<ge> length (queue s) then s
      else if currentHash (signer s) \<noteq> None \<or> isPending (signer s) then s
      else if lastExecutedIndexRef s = int (currentIndex s) then s
      else executeCurrentTransfer s)"

text \<open>The effect that ends the run (lines 180-184).\<close>

definition checkDone :: "hook \<Rightarrow> hook" where
  "checkDone s =
     (if allTransfersConfirmed s \<and> isTransferring s then s\<lparr>isTransferring := False\<rparr> else s)"

text \<open>\<open>skip\<close> (lines 187-206).\<close>

definition skip :: "hook \<Rightarrow> hook" where
  "skip s =
     (if \<not> isTransferring s \<or> writeError (signer s) = None then s
      else
        let nextIndex = currentIndex s + 1 in
        s\<lparr>completedTransfers := completedTransfers s @
            [\<lparr>tokenId = js_index (queue s) (currentIndex s), hash = ''0x'', status = Failed\<rparr>],
          isExecutingRef := False,
          lastExecutedIndexRef := - 1,
          currentIndex := nextIndex,
          signer := (if nextIndex < length (queue s) then resetWrite (signer s)
                     else signer s)\<rparr>)"

text \<open>
  \<open>retry\<close> (lines 209-219): the synchronous part. It also starts a 100 ms timer whose body
  calls \<open>executeCurrentTransfer\<close>; the timer firing is the separate step \<open>retryTimer\<close>.
\<close>

definition retry :: "hook \<Rightarrow> hook" where
  "retry s =
     (if \<not> isTransferring s \<or> writeError (signer s) = None then s
      else s\<lparr>signer := resetWrite (signer s),
             isExecutingRef := False,
             lastExecutedIndexRef := - 1\<rparr>)"

text \<open>
  The body of the timer (lines 216-218). It calls the \<open>executeCurrentTransfer\<close> of the render
  \<open>c\<close> in which \<open>retry\<close> was called: \<open>transferParams\<close>, \<open>currentIndex\<close> and \<open>queue\<close> are
  the values captured in \<open>c\<close>, while the two refs and the signer are read in the state \<open>s\<close>
  in which the timer fires. Nothing cancels the timer.
\<close>

definition retryTimer :: "hook \<Rightarrow> hook \<Rightarrow> hook" where
  "retryTimer c s =
     (case transferParams c of
        None \<Rightarrow> s
      | Some p \<Rightarrow>
          if currentIndex c \<ge> length (queue c) then s
          else if lastExecutedIndexRef s = int (currentIndex c) then s
          else if isExecutingRef s then s
          else s\<lparr>lastExecutedIndexRef := int (currentIndex c),
                 isExecutingRef := True,
                 signer := writeContract
                   \<lparr>address = tp_contractAddress p, functionName = ''safeTransferFrom'',
                    args = (tp_from p, tp_to p, queue c ! currentIndex c)\<rparr> (signer s)\<rparr>)"

text \<open>\<open>reset\<close> (lines 222-232).\<close>

definition reset :: "hook \<Rightarrow> hook" where
  "reset s =
     s\<lparr>queue := [],
       currentIndex := 0,
       isTransferring := False,
       completedTransfers := [],
       transferParams := None,
       processedHashesRef := {},
       lastExecutedIndexRef := - 1,
       isExecutingRef := False,
       signer := resetWrite (signer s)\<rparr>"

subsection \<open>Runs\<close>

text \<open>
  One event is a call from the presentation layer, an answer of the signer, a callback of a
  confirmation watch, or one run of an effect or timer body. \<open>RetryTimer c\<close> is the firing of
  a timer that \<open>retry\<close> started in the render \<open>c\<close>.
\<close>

datatype event =
    StartTransfer ERC721MultiTransferParams string
  | Skip
  | Retry
  | RetryTimer hook
  | Reset
  | SignerHash string
  | SignerError string
  | AutoExecuteFirst
  | HashArrival
  | ExecuteNext
  | CheckDone
  | ReceiptResolved string
  | ReceiptRejected string

fun step :: "hook \<Rightarrow> event \<Rightarrow> hook" where
  "step s (StartTransfer params sender) = startTransfer params sender s"
| "step s Skip = skip s"
| "step s Retry = retry s"
| "step s (RetryTimer c) = retryTimer c s"
| "step s Reset = reset s"
| "step s (SignerHash h) = s\<lparr>signer := signerYieldsHash h (signer s)\<rparr>"
| "step s (SignerError e) = s\<lparr>signer := signerYieldsError e (signer s)\<rparr>"
| "step s AutoExecuteFirst = autoExecuteFirst s"
| "step s HashArrival = hashArrival s"
| "step s ExecuteNext = executeNext s"
| "step s CheckDone = checkDone s"
| "step s (ReceiptResolved h) = receiptResolved h s"
| "step s (ReceiptRejected h) = receiptRejected h s"

definition run :: "hook \<Rightarrow> event list \<Rightarrow> hook" where
  "run s evs = foldl step s evs"

text \<open>Events that replace the set of processed handles: they begin or end a batch run.\<close>

fun replaces_guards :: "event \<Rightarrow> bool" where
  "replaces_guards (StartTransfer params sender) = True"
| "replaces_guards Reset = True"
| "replaces_guards ev = False"

subsection \<open>A batch of two units\<close>

text \<open>
  The states used as concrete inputs below are reached from a fresh hook by the hook's own
  steps, in the order React runs them: a batch of two units is started, the first unit is
  submitted and the signer answers with a handle; the handle is recorded and the second unit is
  submitted; the signer answers with an error; the user skips the second unit.
\<close>

definition batch12 :: ERC721MultiTransferParams where
  "batch12 = \<lparr>p_contractAddress = ''0xC'', p_to = ''0xB'', p_tokenIds = [1, 2]\<rparr>"

definition handle_trace :: "event list" where
  "handle_trace = [StartTransfer batch12 ''0xA'', AutoExecuteFirst, SignerHash ''0x01'']"

definition error_trace :: "event list" where
  "error_trace = handle_trace @ [HashArrival, ExecuteNext, SignerError ''rejected'']"

definition skipped_trace :: "event list" where
  "skipped_trace = error_trace @ [Skip, CheckDone, ExecuteNext]"

definition at_handle :: "bool \<Rightarrow> hook" where
  "at_handle client = run (fresh client) handle_trace"

definition at_error :: hook where
  "at_error = run (fresh True) error_trace"

definition at_skipped :: hook where
  "at_skipped = run (fresh True) skipped_trace"

text \<open>
  A batch of one unit that runs to completion, followed by a second \<open>startTransfer\<close> with no
  \<open>reset\<close> in between; after each call the effects run in the order of the source.
\<close>

definition restart_trace :: "event list" where
  "restart_trace =
     [StartTransfer (batch12\<lparr>p_tokenIds := [1]\<rparr>) ''0xA'', AutoExecuteFirst, SignerHash ''0x01'',
      HashArrival, ExecuteNext, ReceiptResolved ''0x01'', CheckDone,
      StartTransfer (batch12\<lparr>p_tokenIds := [2]\<rparr>) ''0xA'', AutoExecuteFirst, HashArrival,
      ExecuteNext, CheckDone]"

subsection \<open>Measures used in the statements\<close>

text \<open>An event list in which no \<open>startTransfer\<close> installs a queue.\<close>

fun starts_nothing :: "event \<Rightarrow> bool" where
  "starts_nothing (StartTransfer params sender) = (p_tokenIds params = [])"
| "starts_nothing ev = True"

text \<open>The state in which no batch has been installed.\<close>

definition idle :: "hook \<Rightarrow> bool" where
  "idle s \<longleftrightarrow> queue s = [] \<and> \<not> isTransferring s \<and> transferParams s = None \<and>
     completedTransfers s = []"

text \<open>An event list that stays inside one batch run: the processed set is not replaced.\<close>

definition same_run :: "event list \<Rightarrow> bool" where
  "same_run evs = list_all (\<lambda>ev. \<not> replaces_guards ev) evs"

text \<open>
  How many records carry a given handle, and how many more arrivals of a handle the processed
  set still lets through.
\<close>

definition handle_count :: "string \<Rightarrow> TransferResult list \<Rightarrow> nat" where
  "handle_count h ts = length (filter (\<lambda>t. hash t = h) ts)"

definition allowance :: "string \<Rightarrow> hook \<Rightarrow> nat" where
  "allowance h s = (if h \<in> processedHashesRef s then 0 else 1)"

text \<open>
  One successful submission per handle: the effect that applies submits the current unit, the
  signer answers with the handle, and the handle effect records it. \<open>awaiting q k\<close> is the
  state of a run on queue \<open>q\<close> that stands at position \<open>k\<close> with nothing in flight.
\<close>

fun submissions :: "string list \<Rightarrow> event list" where
  "submissions [] = []"
| "submissions (h # hs) = [AutoExecuteFirst, ExecuteNext, SignerHash h, HashArrival] @ submissions hs"

definition awaiting :: "int list \<Rightarrow> nat \<Rightarrow> hook \<Rightarrow> bool" where
  "awaiting q k s \<longleftrightarrow>
     queue s = q \<and> currentIndex s = k \<and> isTransferring s \<and> transferParams s \<noteq> None \<and>
     \<not> isExecutingRef s \<and> lastExecutedIndexRef s < int k \<and>
     (k < length q \<longrightarrow> currentHash (signer s) = None \<and> \<not> isPending (signer s))"

text \<open>
  The state without the histories of calls made to the collaborators. No guard of the hook
  reads them.
\<close>

definition without_history :: "hook \<Rightarrow> hook" where
  "without_history s = s\<lparr>signer := (signer s)\<lparr>requests := []\<rparr>, watched := []\<rparr>"

text \<open>The records are as many as \<open>currentIndex\<close> and carry the units of the queue in order.\<close>

definition records_follow_queue :: "hook \<Rightarrow> bool" where
  "records_follow_queue s \<longleftrightarrow>
     length (completedTransfers s) = currentIndex s \<and>
     (\<forall>i < currentIndex s. tokenId (completedTransfers s ! i) = js_index (queue s) i)"

section \<open>The example batch, evaluated\<close>

lemmas hook_defs = run_def fresh_def startTransfer_def autoExecuteFirst_def executeCurrentTransfer_def
  hashArrival_def executeNext_def checkDone_def skip_def retry_def retryTimer_def reset_def
  receiptResolved_def receiptRejected_def resetWrite_def writeContract_def signerYieldsHash_def
  signerYieldsError_def js_index_def allTransfersConfirmed_def totalCount_def Let_def
  batch12_def handle_trace_def error_trace_def skipped_trace_def

lemma at_handle_eq: "at_handle c =
  \<lparr>queue = [1, 2], currentIndex = 0, isTransferring = True, completedTransfers = [],
   transferParams = Some \<lparr>tp_contractAddress = ''0xC'', tp_to = ''0xB'', tp_from = ''0xA''\<rparr>,
   processedHashesRef = {}, lastExecutedIndexRef = 0, isExecutingRef = True,
   signer = \<lparr>currentHash = Some ''0x01'', isPending = False, writeError = None,
     requests = [\<lparr>address = ''0xC'', functionName = ''safeTransferFrom'', args = (''0xA'', ''0xB'', 1)\<rparr>]\<rparr>,
   publicClient = c, watched = []\<rparr>"
  by (simp add: at_handle_def hook_defs)

lemma at_error_eq: "at_error =
  \<lparr>queue = [1, 2], currentIndex = 1, isTransferring = True,
   completedTransfers = [\<lparr>tokenId = Some 1, hash = ''0x01'', status = Pending\<rparr>],
   transferParams = Some \<lparr>tp_contractAddress = ''0xC'', tp_to = ''0xB'', tp_from = ''0xA''\<rparr>,
   processedHashesRef = {''0x01''}, lastExecutedIndexRef = 1, isExecutingRef = True,
   signer = \<lparr>currentHash = None, isPending = False, writeError = Some ''rejected'',
     requests = [\<lparr>address = ''0xC'', functionName = ''safeTransferFrom'', args = (''0xA'', ''0xB'', 1)\<rparr>,
                 \<lparr>address = ''0xC'', functionName = ''safeTransferFrom'', args = (''0xA'', ''0xB'', 2)\<rparr>]\<rparr>,
   publicClient = True, watched = [''0x01'']\<rparr>"
  by (simp add: at_error_def hook_defs)

lemma at_skipped_eq: "at_skipped =
  \<lparr>queue = [1, 2], currentIndex = 2, isTransferring = True,
   completedTransfers = [\<lparr>tokenId = Some 1, hash = ''0x01'', status = Pending\<rparr>,
                         \<lparr>tokenId = Some 2, hash = ''0x'', status = Failed\<rparr>],
   transferParams = Some \<lparr>tp_contractAddress = ''0xC'', tp_to = ''0xB'', tp_from = ''0xA''\<rparr>,
   processedHashesRef = {''0x01''}, lastExecutedIndexRef = - 1, isExecutingRef = False,
   signer = \<lparr>currentHash = None, isPending = False, writeError = Some ''rejected'',
     requests = [\<lparr>address = ''0xC'', functionName = ''safeTransferFrom'', args = (''0xA'', ''0xB'', 1)\<rparr>,
                 \<lparr>address = ''0xC'', functionName = ''safeTransferFrom'', args = (''0xA'', ''0xB'', 2)\<rparr>]\<rparr>,
   publicClient = True, watched = [''0x01'']\<rparr>"
  by (simp add: at_skipped_def hook_defs)

section \<open>Derived views\<close>

lemma spec_count_pending_filter:
  "spec_count_pending ts = length (filter (\<lambda>t. status t = Pending) ts)"
  by (induction ts) simp_all

lemma terminal_iff: "(st = Success \<or> st = Failed) \<longleftrightarrow> st \<noteq> Pending"
  by (cases st) simp_all

text \<open>
  Claim C8. In every state the views computed by the hook equal the expressions of the
  specification: \<open>allSubmitted\<close> is \<open>currentIndex \<ge> totalCount \<and> totalCount > 0\<close>;
  \<open>allConfirmed\<close> is \<open>records.length = totalCount \<and> totalCount > 0\<close> and no record is
  pending; \<open>isComplete\<close> is \<open>allConfirmed\<close>; \<open>pendingConfirmations\<close> is the number of pending
  records. The views are total functions of the state; no branch of them raises.
\<close>

theorem derived_views:
  "allTransfersSubmitted s = spec_allSubmitted s \<and>
   allTransfersConfirmed s = spec_allConfirmed s \<and>
   isComplete s = spec_allConfirmed s \<and>
   pendingConfirmations s = spec_count_pending (completedTransfers s)"
  by (simp add: allTransfersSubmitted_def spec_allSubmitted_def allTransfersConfirmed_def
      spec_allConfirmed_def isComplete_def pendingConfirmations_def totalCount_def
      spec_count_pending_filter list_all_iff terminal_iff)

theorem derived_views_witness:
  "allTransfersSubmitted at_skipped \<and> \<not> allTransfersConfirmed at_skipped \<and>
   \<not> isComplete at_skipped \<and> pendingConfirmations at_skipped = 1 \<and>
   isComplete (receiptResolved ''0x01'' at_skipped) \<and>
   pendingConfirmations (receiptResolved ''0x01'' at_skipped) = 0"
  using derived_views [of at_skipped] derived_views [of "receiptResolved ''0x01'' at_skipped"]
  by (simp add: at_skipped_eq receiptResolved_def spec_allSubmitted_def spec_allConfirmed_def)

section \<open>The submission guard\<close>








section \<open>Reset and start\<close>

text \<open>
  What \<open>reset\<close> does to the state, from any state: every state field and every ref has its
  initial value and the signer is idle, so that up to the histories of calls already made the
  state is that of a fresh hook, and a \<open>startTransfer\<close> that follows at once gives the state it
  gives on a fresh hook.
\<close>

lemma reset_state:
  "queue (reset s) = [] \<and> currentIndex (reset s) = 0 \<and> completedTransfers (reset s) = [] \<and>
   transferParams (reset s) = None \<and> \<not> isTransferring (reset s) \<and>
   processedHashesRef (reset s) = {} \<and> lastExecutedIndexRef (reset s) = - 1 \<and>
   \<not> isExecutingRef (reset s) \<and>
   signer (reset s) = resetWrite (signer s) \<and>
   currentHash (signer (reset s)) = None \<and> \<not> isPending (signer (reset s)) \<and>
   writeError (signer (reset s)) = None \<and>
   without_history (reset s) = fresh (publicClient s) \<and>
   without_history (startTransfer params sender (reset s)) =
     startTransfer params sender (fresh (publicClient s))"
  by (simp add: reset_def fresh_def resetWrite_def startTransfer_def without_history_def)

text \<open>
  Claim C9 says that after \<open>reset\<close> nothing of the prior batch is left and that a following
  \<open>startTransfer\<close> behaves as on a fresh hook. \<open>reset\<close> clears the state (\<open>reset_state\<close>) but
  not the 100 ms timer that \<open>retry\<close> started; the advance effect, by contrast, clears its
  timer in its cleanup. When the user retries the rejected second unit and resets before the
  timer fires, the timer still holds the parameters, index and queue of the discarded batch
  and finds both guards cleared by \<open>reset\<close>: it sends a third request, for unit 2 of the
  discarded batch, and sets the guard token to 1 and the in-flight flag. A new batch started
  after that finds the signer busy and does not submit its first unit, where a fresh hook
  submits it.
\<close>

theorem retry_timer_outlives_reset:
  "isTransferring at_error \<and> writeError (signer at_error) \<noteq> None \<and>
   queue (run at_error [Retry, Reset]) = [] \<and>
   transferParams (run at_error [Retry, Reset]) = None \<and>
   lastExecutedIndexRef (run at_error [Retry, Reset]) = - 1 \<and>
   \<not> isExecutingRef (run at_error [Retry, Reset]) \<and>
   \<not> isPending (signer (run at_error [Retry, Reset])) \<and>
   lastExecutedIndexRef (run at_error [Retry, Reset, RetryTimer at_error]) = 1 \<and>
   isExecutingRef (run at_error [Retry, Reset, RetryTimer at_error]) \<and>
   isPending (signer (run at_error [Retry, Reset, RetryTimer at_error])) \<and>
   requests (signer (run at_error [Retry, Reset, RetryTimer at_error])) =
     [\<lparr>address = ''0xC'', functionName = ''safeTransferFrom'', args = (''0xA'', ''0xB'', 1)\<rparr>,
      \<lparr>address = ''0xC'', functionName = ''safeTransferFrom'', args = (''0xA'', ''0xB'', 2)\<rparr>,
      \<lparr>address = ''0xC'', functionName = ''safeTransferFrom'', args = (''0xA'', ''0xB'', 2)\<rparr>] \<and>
   requests (signer (run at_error
       [Retry, Reset, RetryTimer at_error, StartTransfer batch12 ''0xA'', AutoExecuteFirst])) =
     [\<lparr>address = ''0xC'', functionName = ''safeTransferFrom'', args = (''0xA'', ''0xB'', 1)\<rparr>,
      \<lparr>address = ''0xC'', functionName = ''safeTransferFrom'', args = (''0xA'', ''0xB'', 2)\<rparr>,
      \<lparr>address = ''0xC'', functionName = ''safeTransferFrom'', args = (''0xA'', ''0xB'', 2)\<rparr>] \<and>
   \<not> isExecutingRef (run at_error
       [Retry, Reset, RetryTimer at_error, StartTransfer batch12 ''0xA'', AutoExecuteFirst]) \<and>
   requests (signer (run (fresh True) [StartTransfer batch12 ''0xA'', AutoExecuteFirst])) =
     [\<lparr>address = ''0xC'', functionName = ''safeTransferFrom'', args = (''0xA'', ''0xB'', 1)\<rparr>] \<and>
   isExecutingRef (run (fresh True) [StartTransfer batch12 ''0xA'', AutoExecuteFirst])"
  by (simp add: at_error_eq hook_defs)

lemma idle_step: "idle s \<Longrightarrow> starts_nothing ev \<Longrightarrow> idle (step s ev)"
  by (cases ev)
    (simp_all add: idle_def startTransfer_def skip_def retry_def retryTimer_def reset_def
      autoExecuteFirst_def hashArrival_def executeNext_def checkDone_def receiptResolved_def
      receiptRejected_def executeCurrentTransfer_def split: option.splits)

lemma idle_run: "idle s \<Longrightarrow> list_all starts_nothing evs \<Longrightarrow> idle (run s evs)"
  unfolding run_def by (induction evs arbitrary: s) (simp_all add: idle_step)

text \<open>
  Claim C10. \<open>startTransfer\<close> with an empty list of units returns the state as it is. A
  complete batch has a non-empty queue, and a hook on which every \<open>startTransfer\<close> came
  with an empty list never transfers and is never complete, whatever else happens.
\<close>

theorem start_with_no_units:
  "(p_tokenIds params = [] \<longrightarrow> startTransfer params sender s = s) \<and>
   (isComplete s \<longrightarrow> queue s \<noteq> []) \<and>
   (list_all starts_nothing evs \<longrightarrow>
      queue (run (fresh c) evs) = [] \<and> \<not> isTransferring (run (fresh c) evs) \<and>
      transferParams (run (fresh c) evs) = None \<and> \<not> isComplete (run (fresh c) evs))"
proof -
  have "idle (fresh c)" by (simp add: idle_def fresh_def)
  then have "list_all starts_nothing evs \<Longrightarrow> idle (run (fresh c) evs)"
    by (rule idle_run)
  then show ?thesis
    by (auto simp: startTransfer_def isComplete_def allTransfersConfirmed_def totalCount_def idle_def)
qed

theorem start_with_no_units_witness:
  "p_tokenIds (batch12\<lparr>p_tokenIds := []\<rparr>) = [] \<and>
   startTransfer (batch12\<lparr>p_tokenIds := []\<rparr>) ''0xA'' at_error = at_error \<and>
   isComplete (receiptResolved ''0x01'' at_skipped) \<and>
   queue (receiptResolved ''0x01'' at_skipped) \<noteq> [] \<and>
   list_all starts_nothing
     [StartTransfer (batch12\<lparr>p_tokenIds := []\<rparr>) ''0xA'', AutoExecuteFirst, SignerHash ''0x01'',
      HashArrival, CheckDone] \<and>
   \<not> isTransferring (run (fresh True)
     [StartTransfer (batch12\<lparr>p_tokenIds := []\<rparr>) ''0xA'', AutoExecuteFirst, SignerHash ''0x01'',
      HashArrival, CheckDone]) \<and>
   \<not> isComplete (run (fresh True)
     [StartTransfer (batch12\<lparr>p_tokenIds := []\<rparr>) ''0xA'', AutoExecuteFirst, SignerHash ''0x01'',
      HashArrival, CheckDone])"
proof -
  have a: "isComplete (receiptResolved ''0x01'' at_skipped)"
    by (simp add: at_skipped_eq receiptResolved_def isComplete_def allTransfersConfirmed_def
        totalCount_def)
  have b: "list_all starts_nothing
     [StartTransfer (batch12\<lparr>p_tokenIds := []\<rparr>) ''0xA'', AutoExecuteFirst, SignerHash ''0x01'',
      HashArrival, CheckDone]"
    by simp
  show ?thesis
    using a b
      start_with_no_units [of "batch12\<lparr>p_tokenIds := []\<rparr>" "''0xA''" at_error]
      start_with_no_units [of _ _ "receiptResolved ''0x01'' at_skipped"]
      start_with_no_units [of _ _ _ "[StartTransfer (batch12\<lparr>p_tokenIds := []\<rparr>) ''0xA'',
        AutoExecuteFirst, SignerHash ''0x01'', HashArrival, CheckDone]" True]
    by simp
qed

section \<open>Arrival of a submission handle\<close>

text \<open>
  Claim C1, as the code has it. In a transferring session with \<open>currentIndex < queue.length\<close>,
  when the signer holds a handle \<open>h\<close> that is not in the processed set, the effect appends
  exactly the record \<open>{tokenId: queue[currentIndex], hash: h, status: pending}\<close>, clears the
  in-flight flag, marks \<open>h\<close> as processed and advances \<open>currentIndex\<close> by one in the same
  step, before any confirmation. The confirmation watch is started under the guard
  \<open>if (publicClient)\<close>: with a chain client the handle is added to the watched handles once,
  without one no watch is started.
\<close>

theorem hash_arrival_new_handle:
  "isTransferring s \<and> currentIndex s < length (queue s) \<and>
   currentHash (signer s) = Some h \<and> h \<notin> processedHashesRef s \<longrightarrow>
     completedTransfers (hashArrival s) = completedTransfers s @
       [\<lparr>tokenId = Some (queue s ! currentIndex s), hash = h, status = Pending\<rparr>] \<and>
     \<not> isExecutingRef (hashArrival s) \<and>
     processedHashesRef (hashArrival s) = insert h (processedHashesRef s) \<and>
     watched (hashArrival s) = (if publicClient s then watched s @ [h] else watched s) \<and>
     currentIndex (hashArrival s) = currentIndex s + 1 \<and>
     queue (hashArrival s) = queue s \<and> isTransferring (hashArrival s)"
  by (simp add: hashArrival_def js_index_def Let_def)

theorem hash_arrival_new_handle_witness:
  "isTransferring (at_handle True) \<and>
   currentIndex (at_handle True) < length (queue (at_handle True)) \<and>
   currentHash (signer (at_handle True)) = Some ''0x01'' \<and>
   ''0x01'' \<notin> processedHashesRef (at_handle True) \<and>
   completedTransfers (hashArrival (at_handle True)) =
     [\<lparr>tokenId = Some 1, hash = ''0x01'', status = Pending\<rparr>] \<and>
   watched (hashArrival (at_handle True)) = [''0x01''] \<and>
   currentIndex (hashArrival (at_handle True)) = 1"
  using hash_arrival_new_handle [of "at_handle True" "''0x01''"]
  by (simp add: at_handle_eq)

text \<open>
  The claim as written promises the watch for every active session. With no chain client
  (\<open>usePublicClient()\<close> gave \<open>undefined\<close>) the record is appended and the index advances,
  and nothing is watched.
\<close>

theorem hash_arrival_without_client:
  "transferParams (at_handle False) \<noteq> None \<and> isTransferring (at_handle False) \<and>
   currentIndex (at_handle False) < length (queue (at_handle False)) \<and>
   currentHash (signer (at_handle False)) = Some ''0x01'' \<and>
   ''0x01'' \<notin> processedHashesRef (at_handle False) \<and>
   completedTransfers (hashArrival (at_handle False)) =
     [\<lparr>tokenId = Some 1, hash = ''0x01'', status = Pending\<rparr>] \<and>
   currentIndex (hashArrival (at_handle False)) = 1 \<and>
   watched (hashArrival (at_handle False)) = []"
  by (simp add: at_handle_eq hashArrival_def js_index_def resetWrite_def)

section \<open>One watch per handle\<close>

lemma hash_arrival_seen:
  "currentHash (signer s) = Some h \<Longrightarrow> h \<in> processedHashesRef s \<Longrightarrow> hashArrival s = s"
  by (simp add: hashArrival_def)

lemma hash_arrival_twice: "hashArrival (hashArrival s) = hashArrival s"
  by (cases "currentHash (signer s)")
    (simp_all add: hashArrival_def Let_def resetWrite_def)

lemma execute_keeps_watch:
  "watched (executeCurrentTransfer s) = watched s \<and>
   processedHashesRef (executeCurrentTransfer s) = processedHashesRef s \<and>
   completedTransfers (executeCurrentTransfer s) = completedTransfers s"
  by (simp add: executeCurrentTransfer_def split: option.splits)

lemma handle_count_receipt:
  "handle_count h (map (\<lambda>t. if hash t = k then t\<lparr>status := a\<rparr> else t) ts) = handle_count h ts"
  unfolding handle_count_def by (induction ts) auto

lemma watch_step:
  "\<not> replaces_guards ev \<Longrightarrow>
   count_list (watched (step s ev)) h + allowance h (step s ev) \<le>
   count_list (watched s) h + allowance h s"
  by (cases ev)
    (simp_all add: allowance_def skip_def retry_def retryTimer_def autoExecuteFirst_def
      hashArrival_def executeNext_def checkDone_def receiptResolved_def receiptRejected_def
      execute_keeps_watch Let_def split: option.splits)

lemma record_step:
  "\<not> replaces_guards ev \<Longrightarrow> h \<noteq> ''0x'' \<Longrightarrow>
   handle_count h (completedTransfers (step s ev)) + allowance h (step s ev) \<le>
   handle_count h (completedTransfers s) + allowance h s"
  by (cases ev)
    (simp_all add: allowance_def skip_def retry_def retryTimer_def autoExecuteFirst_def
      hashArrival_def executeNext_def checkDone_def receiptResolved_def receiptRejected_def
      execute_keeps_watch handle_count_receipt Let_def split: option.splits,
     simp_all add: handle_count_def)

lemma watch_run:
  "same_run evs \<Longrightarrow>
   count_list (watched (run s evs)) h + allowance h (run s evs) \<le>
   count_list (watched s) h + allowance h s"
  unfolding run_def same_run_def
proof (induction evs arbitrary: s)
  case Nil
  then show ?case by simp
next
  case (Cons ev evs)
  from Cons.prems have "\<not> replaces_guards ev" and "list_all (\<lambda>ev. \<not> replaces_guards ev) evs"
    by simp_all
  from Cons.IH [OF this(2), of "step s ev"] watch_step [OF this(1), of s h]
  show ?case by simp
qed

lemma record_run:
  "same_run evs \<Longrightarrow> h \<noteq> ''0x'' \<Longrightarrow>
   handle_count h (completedTransfers (run s evs)) + allowance h (run s evs) \<le>
   handle_count h (completedTransfers s) + allowance h s"
  unfolding run_def same_run_def
proof (induction evs arbitrary: s)
  case Nil
  then show ?case by simp
next
  case (Cons ev evs)
  from Cons.prems have a: "\<not> replaces_guards ev" and b: "list_all (\<lambda>ev. \<not> replaces_guards ev) evs"
    by simp_all
  from Cons.IH [OF b Cons.prems(2), of "step s ev"] record_step [OF a Cons.prems(2), of s]
  show ?case by simp
qed

text \<open>
  What the processed set guarantees. When the handle held by the signer is already in the
  processed set, the effect returns the state as it is: no record, no watch, no advance.
  Running the effect twice is running it once. Within one batch run (\<open>startTransfer\<close> and
  \<open>reset\<close> replace the processed set) any sequence of events starts at most one watch for a
  handle that was not processed before, and none for a processed one; the same bound holds for
  the records carrying the handle (\<open>0x\<close> is the handle of skipped units, not a submission
  handle).
\<close>

theorem one_watch_per_handle:
  "(currentHash (signer s) = Some h \<and> h \<in> processedHashesRef s \<longrightarrow> hashArrival s = s) \<and>
   hashArrival (hashArrival s) = hashArrival s \<and>
   (same_run evs \<longrightarrow>
      count_list (watched (run s evs)) h \<le> count_list (watched s) h + allowance h s \<and>
      (h \<noteq> ''0x'' \<longrightarrow>
         handle_count h (completedTransfers (run s evs)) \<le>
         handle_count h (completedTransfers s) + allowance h s))"
  using watch_run [of evs s h] record_run [of evs h s]
  by (auto simp: hash_arrival_seen hash_arrival_twice)

theorem one_watch_per_handle_witness:
  "currentHash (signer (step (hashArrival (at_handle True)) (SignerHash ''0x01''))) = Some ''0x01'' \<and>
   ''0x01'' \<in> processedHashesRef (step (hashArrival (at_handle True)) (SignerHash ''0x01'')) \<and>
   hashArrival (step (hashArrival (at_handle True)) (SignerHash ''0x01'')) =
     step (hashArrival (at_handle True)) (SignerHash ''0x01'') \<and>
   same_run [HashArrival, SignerHash ''0x01'', HashArrival, ExecuteNext, HashArrival] \<and>
   ''0x01'' \<noteq> ''0x'' \<and>
   count_list (watched (run (at_handle True)
     [HashArrival, SignerHash ''0x01'', HashArrival, ExecuteNext, HashArrival])) ''0x01'' \<le> 1 \<and>
   handle_count ''0x01'' (completedTransfers (run (at_handle True)
     [HashArrival, SignerHash ''0x01'', HashArrival, ExecuteNext, HashArrival])) \<le> 1"
proof -
  let ?d = "step (hashArrival (at_handle True)) (SignerHash ''0x01'')"
  let ?evs = "[HashArrival, SignerHash ''0x01'', HashArrival, ExecuteNext, HashArrival]"
  have a: "currentHash (signer ?d) = Some ''0x01'' \<and> ''0x01'' \<in> processedHashesRef ?d"
    by (simp add: at_handle_eq hashArrival_def signerYieldsHash_def)
  have b: "same_run ?evs" and c: "''0x01'' \<noteq> ''0x''"
    by (simp_all add: same_run_def)
  have d: "count_list (watched (at_handle True)) ''0x01'' = 0 \<and>
      handle_count ''0x01'' (completedTransfers (at_handle True)) = 0 \<and>
      allowance ''0x01'' (at_handle True) = 1"
    by (simp add: at_handle_eq handle_count_def allowance_def)
  from one_watch_per_handle [of ?d "''0x01''"] a
  have "hashArrival ?d = ?d" by blast
  moreover from one_watch_per_handle [of "at_handle True" "''0x01''" ?evs] b c d
  have "count_list (watched (run (at_handle True) ?evs)) ''0x01'' \<le> 1 \<and>
      handle_count ''0x01'' (completedTransfers (run (at_handle True) ?evs)) \<le> 1"
    by simp
  ultimately show ?thesis using a b c by simp
qed

text \<open>
  Claim C6 says that a handle is watched and recorded at most once, ever. The guard holds
  inside a batch run (\<open>one_watch_per_handle\<close>), but \<open>startTransfer\<close> replaces the processed
  set and, unlike \<open>reset\<close>, does not call \<open>resetWrite\<close>, so the signer still holds the last
  handle of the previous batch. When a second batch is started after a completed one, the
  handle effect meets the old handle with an empty processed set: the handle is watched a
  second time and recorded for the first unit of the new batch, for which no request was ever
  sent; when the second watch resolves, that unit is reported as a success and the batch as
  complete.
\<close>

theorem stale_handle_after_restart:
  "watched (run (fresh True) (take 7 restart_trace)) = [''0x01''] \<and>
   \<not> isTransferring (run (fresh True) (take 7 restart_trace)) \<and>
   isComplete (run (fresh True) (take 7 restart_trace)) \<and>
   watched (run (fresh True) restart_trace) = [''0x01'', ''0x01''] \<and>
   completedTransfers (run (fresh True) restart_trace) =
     [\<lparr>tokenId = Some 2, hash = ''0x01'', status = Pending\<rparr>] \<and>
   requests (signer (run (fresh True) restart_trace)) =
     [\<lparr>address = ''0xC'', functionName = ''safeTransferFrom'', args = (''0xA'', ''0xB'', 1)\<rparr>] \<and>
   completedTransfers (run (fresh True) (restart_trace @ [ReceiptResolved ''0x01'', CheckDone])) =
     [\<lparr>tokenId = Some 2, hash = ''0x01'', status = Success\<rparr>] \<and>
   isComplete (run (fresh True) (restart_trace @ [ReceiptResolved ''0x01'', CheckDone])) \<and>
   requests (signer (run (fresh True) (restart_trace @ [ReceiptResolved ''0x01'', CheckDone]))) =
     [\<lparr>address = ''0xC'', functionName = ''safeTransferFrom'', args = (''0xA'', ''0xB'', 1)\<rparr>]"
  by (simp add: restart_trace_def hook_defs isComplete_def)

section \<open>Confirmation callbacks\<close>





section \<open>Skip and retry\<close>

text \<open>
  What \<open>skip\<close> does in every state. While the session is transferring and the signer holds an
  error, \<open>skip\<close> appends one failed record with the value of \<open>queue[currentIndex]\<close> and the
  empty hex string \<open>0x\<close> as handle, advances \<open>currentIndex\<close> by one, releases both guards,
  sends nothing to the signer, and resets the signer exactly when the new index is still
  inside the queue. When the session is not transferring, or the signer holds no error,
  \<open>skip\<close> returns the state as it is.
\<close>

theorem skip_effect:
  "(isTransferring s \<and> writeError (signer s) \<noteq> None \<longrightarrow>
      completedTransfers (skip s) = completedTransfers s @
        [\<lparr>tokenId = currentTokenId s, hash = ''0x'', status = Failed\<rparr>] \<and>
      (currentIndex s < length (queue s) \<longrightarrow> currentTokenId s = Some (queue s ! currentIndex s)) \<and>
      currentIndex (skip s) = currentIndex s + 1 \<and>
      signer (skip s) =
        (if currentIndex s + 1 < length (queue s) then resetWrite (signer s) else signer s) \<and>
      (writeError (signer (skip s)) = None \<longleftrightarrow> currentIndex s + 1 < length (queue s)) \<and>
      requests (signer (skip s)) = requests (signer s) \<and>
      \<not> isExecutingRef (skip s) \<and> lastExecutedIndexRef (skip s) = - 1 \<and>
      queue (skip s) = queue s \<and> isTransferring (skip s) \<and>
      transferParams (skip s) = transferParams s \<and>
      processedHashesRef (skip s) = processedHashesRef s \<and> watched (skip s) = watched s) \<and>
   (\<not> isTransferring s \<or> writeError (signer s) = None \<longrightarrow> skip s = s)"
  by (simp add: skip_def currentTokenId_def js_index_def Let_def resetWrite_def)

theorem skip_effect_witness:
  "isTransferring at_error \<and> writeError (signer at_error) \<noteq> None \<and>
   currentIndex at_error < length (queue at_error) \<and>
   completedTransfers (skip at_error) =
     [\<lparr>tokenId = Some 1, hash = ''0x01'', status = Pending\<rparr>,
      \<lparr>tokenId = Some 2, hash = ''0x'', status = Failed\<rparr>] \<and>
   currentIndex (skip at_error) = 2 \<and>
   writeError (signer (skip at_error)) = Some ''rejected'' \<and>
   \<not> isTransferring (fresh True) \<and> skip (fresh True) = fresh True"
  using skip_effect [of at_error] skip_effect [of "fresh True"]
  by (simp add: at_error_eq currentTokenId_def fresh_def)

text \<open>
  Claim C4 says that \<open>skip\<close> appends a failed record for the current position. That holds
  while \<open>currentIndex < queue.length\<close> (\<open>skip_effect\<close>). But \<open>skip\<close> tests only
  \<open>isTransferring\<close> and the signer's error, not the bound that the handle effect and
  \<open>executeCurrentTransfer\<close> test, and skipping the last unit leaves the error in place. After
  the last unit of the batch of two was skipped there is no current position; the session is
  still transferring and the error still outstanding, so \<open>skip\<close> goes through again: it
  appends a failed record that carries no unit and moves \<open>currentIndex\<close> to 3.
\<close>

theorem skip_without_position:
  "isTransferring at_skipped \<and> writeError (signer at_skipped) \<noteq> None \<and>
   currentIndex at_skipped = length (queue at_skipped) \<and>
   currentTokenId at_skipped = None \<and>
   completedTransfers (skip at_skipped) = completedTransfers at_skipped @
     [\<lparr>tokenId = None, hash = ''0x'', status = Failed\<rparr>] \<and>
   currentIndex (skip at_skipped) = 3 \<and>
   length (queue (skip at_skipped)) = 2 \<and>
   skip at_skipped \<noteq> at_skipped"
proof -
  have "currentIndex (skip at_skipped) \<noteq> currentIndex at_skipped"
    by (simp add: at_skipped_eq skip_def)
  then have "skip at_skipped \<noteq> at_skipped"
    by auto
  then show ?thesis
    by (simp add: at_skipped_eq skip_def currentTokenId_def js_index_def)
qed

theorem skip_without_position_witness:
  "\<not> (\<not> isTransferring at_skipped \<or> writeError (signer at_skipped) = None) \<and>
   \<not> currentIndex at_skipped < length (queue at_skipped) \<and>
   tokenId (last (completedTransfers (skip at_skipped))) = None \<and>
   length (queue (skip at_skipped)) < currentIndex (skip at_skipped)"
  using skip_without_position by simp

text \<open>
  Fired in the render that started it, the timer of \<open>retry\<close> is \<open>executeCurrentTransfer\<close>;
  \<open>retry\<close> itself changes none of the values the closure holds.
\<close>

lemma retry_timer_same_render:
  "retryTimer s s = executeCurrentTransfer s \<and>
   retryTimer s (retry s) = executeCurrentTransfer (retry s)"
  by (simp add: retryTimer_def executeCurrentTransfer_def retry_def split: option.splits)

text \<open>
  Claim C5, as the code has it. While the session is transferring and the signer holds an
  error, \<open>retry\<close> resets the signer, clears the position guard and the in-flight flag, and
  leaves \<open>currentIndex\<close> and the records alone. Its timer then runs the
  \<open>executeCurrentTransfer\<close> of the same render, which sends one request for
  \<open>queue[currentIndex]\<close> when the session parameters are set and \<open>currentIndex < queue.length\<close>,
  and does nothing otherwise.
  With no error outstanding, or no transferring session, \<open>retry\<close> returns the state as it is.
\<close>

theorem retry_effect:
  "(isTransferring s \<and> writeError (signer s) \<noteq> None \<longrightarrow>
      signer (retry s) = resetWrite (signer s) \<and>
      writeError (signer (retry s)) = None \<and>
      lastExecutedIndexRef (retry s) = - 1 \<and> \<not> isExecutingRef (retry s) \<and>
      currentIndex (retry s) = currentIndex s \<and>
      completedTransfers (retry s) = completedTransfers s \<and>
      requests (signer (retry s)) = requests (signer s) \<and>
      currentIndex (retryTimer s (retry s)) = currentIndex s \<and>
      completedTransfers (retryTimer s (retry s)) = completedTransfers s \<and>
      (\<forall>p. transferParams s = Some p \<and> currentIndex s < length (queue s) \<longrightarrow>
         requests (signer (retryTimer s (retry s))) = requests (signer s) @
           [\<lparr>address = tp_contractAddress p, functionName = ''safeTransferFrom'',
             args = (tp_from p, tp_to p, queue s ! currentIndex s)\<rparr>]) \<and>
      (transferParams s = None \<or> length (queue s) \<le> currentIndex s \<longrightarrow>
         retryTimer s (retry s) = retry s)) \<and>
   (\<not> isTransferring s \<or> writeError (signer s) = None \<longrightarrow> retry s = s)"
  by (auto simp: retry_def retryTimer_def resetWrite_def
      writeContract_def split: option.splits)

theorem retry_effect_witness:
  "isTransferring at_error \<and> writeError (signer at_error) \<noteq> None \<and>
   transferParams at_error =
     Some \<lparr>tp_contractAddress = ''0xC'', tp_to = ''0xB'', tp_from = ''0xA''\<rparr> \<and>
   currentIndex at_error < length (queue at_error) \<and>
   writeError (signer (retry at_error)) = None \<and>
   lastExecutedIndexRef (retry at_error) = - 1 \<and>
   currentIndex (retryTimer at_error (retry at_error)) = 1 \<and>
   requests (signer (retryTimer at_error (retry at_error))) =
     [\<lparr>address = ''0xC'', functionName = ''safeTransferFrom'', args = (''0xA'', ''0xB'', 1)\<rparr>,
      \<lparr>address = ''0xC'', functionName = ''safeTransferFrom'', args = (''0xA'', ''0xB'', 2)\<rparr>,
      \<lparr>address = ''0xC'', functionName = ''safeTransferFrom'', args = (''0xA'', ''0xB'', 2)\<rparr>] \<and>
   isTransferring at_skipped \<and> writeError (signer at_skipped) \<noteq> None \<and>
   length (queue at_skipped) \<le> currentIndex at_skipped \<and>
   retryTimer at_skipped (retry at_skipped) = retry at_skipped \<and>
   \<not> isTransferring (fresh True) \<and> retry (fresh True) = fresh True"
proof -
  have a: "isTransferring at_error \<and> writeError (signer at_error) \<noteq> None"
    and b: "transferParams at_error =
        Some \<lparr>tp_contractAddress = ''0xC'', tp_to = ''0xB'', tp_from = ''0xA''\<rparr> \<and>
      currentIndex at_error < length (queue at_error)"
    and c: "isTransferring at_skipped \<and> writeError (signer at_skipped) \<noteq> None"
    and d: "length (queue at_skipped) \<le> currentIndex at_skipped"
    and e: "\<not> isTransferring (fresh True)"
    by (simp_all add: at_error_eq at_skipped_eq fresh_def)
  from retry_effect [of at_error] a b
  have "writeError (signer (retry at_error)) = None \<and>
      lastExecutedIndexRef (retry at_error) = - 1 \<and>
      currentIndex (retryTimer at_error (retry at_error)) = currentIndex at_error \<and>
      requests (signer (retryTimer at_error (retry at_error))) = requests (signer at_error) @
        [\<lparr>address = ''0xC'', functionName = ''safeTransferFrom'',
          args = (''0xA'', ''0xB'', queue at_error ! currentIndex at_error)\<rparr>]"
    by (simp add: resetWrite_def)
  moreover from retry_effect [of at_skipped] c d
  have "retryTimer at_skipped (retry at_skipped) = retry at_skipped"
    by blast
  moreover from retry_effect [of "fresh True"] e
  have "retry (fresh True) = fresh True"
    by blast
  ultimately show ?thesis
    using a b c d e by (simp add: at_error_eq)
qed

text \<open>
  The claim as written promises a new submission whenever an error is outstanding. After the
  last unit was skipped the error is still outstanding and \<open>currentIndex = queue.length\<close>:
  \<open>retry\<close> and its timer send nothing.
\<close>

theorem retry_at_end_issues_nothing:
  "isTransferring at_skipped \<and> writeError (signer at_skipped) \<noteq> None \<and>
   requests (signer (retryTimer at_skipped (retry at_skipped))) = requests (signer at_skipped)"
  by (simp add: at_skipped_eq retry_def retryTimer_def resetWrite_def)

section \<open>The cursor and the records\<close>

lemma follow_step:
  assumes "records_follow_queue s"
  shows "records_follow_queue (step s ev)"
proof (cases ev)
  case (StartTransfer params sender)
  with assms show ?thesis
    by (cases "p_tokenIds params = []") (simp_all add: records_follow_queue_def startTransfer_def)
next
  case HashArrival
  with assms show ?thesis
    by (auto simp: records_follow_queue_def hashArrival_def Let_def nth_append less_Suc_eq
        split: option.splits)
next
  case Skip
  with assms show ?thesis
    by (auto simp: records_follow_queue_def skip_def Let_def nth_append less_Suc_eq)
qed (use assms in \<open>simp_all add: records_follow_queue_def retry_def retryTimer_def reset_def
      autoExecuteFirst_def executeNext_def checkDone_def receiptResolved_def receiptRejected_def
      executeCurrentTransfer_def split: option.splits\<close>)

lemma follow_run: "records_follow_queue s \<Longrightarrow> records_follow_queue (run s evs)"
  unfolding run_def by (induction evs arbitrary: s) (simp_all add: follow_step)

lemma follow_reachable: "records_follow_queue (run (fresh c) evs)"
  by (rule follow_run) (simp add: records_follow_queue_def fresh_def)

lemma submit_awaiting:
  assumes "awaiting q k s" and "k < length q"
  shows "executeNext (autoExecuteFirst s) = executeCurrentTransfer s"
proof (cases "k = 0")
  case True
  with assms have "autoExecuteFirst s = executeCurrentTransfer s"
    by (simp add: awaiting_def autoExecuteFirst_def)
  moreover from True assms have "currentIndex (executeCurrentTransfer s) = 0"
    by (simp add: awaiting_def executeCurrentTransfer_def split: option.splits)
  ultimately show ?thesis by (simp add: executeNext_def)
next
  case False
  with assms have "autoExecuteFirst s = s"
    by (simp add: awaiting_def autoExecuteFirst_def)
  moreover from False assms have "executeNext s = executeCurrentTransfer s"
    by (simp add: awaiting_def executeNext_def)
  ultimately show ?thesis by simp
qed

lemma execute_awaiting:
  assumes "awaiting q k s" and "k < length q"
  shows "\<exists>r. executeCurrentTransfer s =
    s\<lparr>lastExecutedIndexRef := int k, isExecutingRef := True, signer := writeContract r (signer s)\<rparr>"
  using assms by (auto simp: awaiting_def executeCurrentTransfer_def split: option.splits)

lemma arrival_awaiting:
  assumes "awaiting q k s" and "k < length q" and "h \<notin> processedHashesRef s"
  shows "awaiting q (Suc k)
      (hashArrival (s\<lparr>lastExecutedIndexRef := int k, isExecutingRef := True,
         signer := signerYieldsHash h (writeContract r (signer s))\<rparr>))"
    and "processedHashesRef
      (hashArrival (s\<lparr>lastExecutedIndexRef := int k, isExecutingRef := True,
         signer := signerYieldsHash h (writeContract r (signer s))\<rparr>)) =
      insert h (processedHashesRef s)"
    and "completedTransfers
      (hashArrival (s\<lparr>lastExecutedIndexRef := int k, isExecutingRef := True,
         signer := signerYieldsHash h (writeContract r (signer s))\<rparr>)) =
      completedTransfers s @ [\<lparr>tokenId = Some (q ! k), hash = h, status = Pending\<rparr>]"
  using assms
  by (simp_all add: awaiting_def hashArrival_def signerYieldsHash_def writeContract_def
      resetWrite_def js_index_def Let_def)

lemma one_submission:
  assumes "awaiting q k s" and "k < length q" and "h \<notin> processedHashesRef s"
  shows "awaiting q (Suc k) (run s [AutoExecuteFirst, ExecuteNext, SignerHash h, HashArrival]) \<and>
    processedHashesRef (run s [AutoExecuteFirst, ExecuteNext, SignerHash h, HashArrival]) =
      insert h (processedHashesRef s) \<and>
    completedTransfers (run s [AutoExecuteFirst, ExecuteNext, SignerHash h, HashArrival]) =
      completedTransfers s @ [\<lparr>tokenId = Some (q ! k), hash = h, status = Pending\<rparr>]"
proof -
  from execute_awaiting [OF assms(1,2)] obtain r where
    "executeCurrentTransfer s =
      s\<lparr>lastExecutedIndexRef := int k, isExecutingRef := True, signer := writeContract r (signer s)\<rparr>"
    by blast
  with submit_awaiting [OF assms(1,2)]
  have "run s [AutoExecuteFirst, ExecuteNext, SignerHash h, HashArrival] =
    hashArrival (s\<lparr>lastExecutedIndexRef := int k, isExecutingRef := True,
      signer := signerYieldsHash h (writeContract r (signer s))\<rparr>)"
    by (simp add: run_def)
  with arrival_awaiting [OF assms, of r] show ?thesis by simp
qed

lemma many_submissions:
  "awaiting q k s \<Longrightarrow> k + length hs \<le> length q \<Longrightarrow> distinct hs \<Longrightarrow>
   set hs \<inter> processedHashesRef s = {} \<Longrightarrow>
   awaiting q (k + length hs) (run s (submissions hs)) \<and>
   completedTransfers (run s (submissions hs)) = completedTransfers s @
     map (\<lambda>(t, h). \<lparr>tokenId = Some t, hash = h, status = Pending\<rparr>) (zip (drop k q) hs)"
proof (induction hs arbitrary: s k)
  case Nil
  then show ?case by (simp add: run_def)
next
  case (Cons h hs)
  let ?s = "run s [AutoExecuteFirst, ExecuteNext, SignerHash h, HashArrival]"
  from Cons.prems have k: "k < length q" and h: "h \<notin> processedHashesRef s" by auto
  from one_submission [OF Cons.prems(1) k h]
  have a: "awaiting q (Suc k) ?s"
    and p: "processedHashesRef ?s = insert h (processedHashesRef s)"
    and c: "completedTransfers ?s =
      completedTransfers s @ [\<lparr>tokenId = Some (q ! k), hash = h, status = Pending\<rparr>]"
    by simp_all
  from Cons.prems have "Suc k + length hs \<le> length q" and "distinct hs"
    and "set hs \<inter> processedHashesRef ?s = {}"
    by (auto simp: p)
  from Cons.IH [OF a this]
  have "awaiting q (Suc k + length hs) (run ?s (submissions hs)) \<and>
    completedTransfers (run ?s (submissions hs)) = completedTransfers ?s @
      map (\<lambda>(t, h). \<lparr>tokenId = Some t, hash = h, status = Pending\<rparr>) (zip (drop (Suc k) q) hs)" .
  moreover have "run s (submissions (h # hs)) = run ?s (submissions hs)"
    by (simp add: run_def)
  moreover have "drop k q = q ! k # drop (Suc k) q"
    using k by (simp add: Cons_nth_drop_Suc)
  ultimately show ?case by (simp add: c)
qed

lemma all_submitted_in_order:
  assumes "p_tokenIds params \<noteq> []" and "length hs = length (p_tokenIds params)" and "distinct hs"
  shows "currentIndex (run (fresh c) (StartTransfer params sender # submissions hs)) =
      length (p_tokenIds params) \<and>
    completedTransfers (run (fresh c) (StartTransfer params sender # submissions hs)) =
      map (\<lambda>(t, h). \<lparr>tokenId = Some t, hash = h, status = Pending\<rparr>) (zip (p_tokenIds params) hs)"
proof -
  let ?s = "startTransfer params sender (fresh c)"
  have "awaiting (p_tokenIds params) 0 ?s" and "processedHashesRef ?s = {}"
    and "completedTransfers ?s = []"
    using assms(1) by (simp_all add: awaiting_def startTransfer_def fresh_def)
  from many_submissions [OF this(1), of hs] this(2,3) assms
  have "awaiting (p_tokenIds params) (length hs) (run ?s (submissions hs)) \<and>
    completedTransfers (run ?s (submissions hs)) =
      map (\<lambda>(t, h). \<lparr>tokenId = Some t, hash = h, status = Pending\<rparr>) (zip (p_tokenIds params) hs)"
    by simp
  moreover have "run (fresh c) (StartTransfer params sender # submissions hs) = run ?s (submissions hs)"
    by (simp add: run_def)
  ultimately show ?thesis using assms(2) by (simp add: awaiting_def)
qed

text \<open>
  Claim C3 asks for \<open>currentIndex \<le> queue.length\<close> in every reachable state. The records do
  follow the queue in every reachable state (\<open>follow_reachable\<close>), and \<open>N\<close> successful
  submissions on a queue of \<open>N\<close> units end with \<open>currentIndex = N\<close> and \<open>N\<close> records in the
  order of the queue (\<open>all_submitted_in_order\<close>). But \<open>skip\<close> has no bound check, unlike the
  handle effect and \<open>executeCurrentTransfer\<close>, and it leaves the signer's error in place when
  it skips the last unit. While an earlier receipt is pending the session is still
  transferring, so a second \<open>skip\<close> goes through: \<open>currentIndex\<close> becomes 3 on a queue of 2, a
  third record with no unit is appended, and the batch can no longer complete.
\<close>

theorem skip_twice_leaves_the_queue:
  "isTransferring (run (fresh True) skipped_trace) \<and>
   writeError (signer (run (fresh True) skipped_trace)) \<noteq> None \<and>
   currentIndex (run (fresh True) skipped_trace) = 2 \<and>
   length (queue (run (fresh True) (skipped_trace @ [Skip]))) = 2 \<and>
   currentIndex (run (fresh True) (skipped_trace @ [Skip])) = 3 \<and>
   completedTransfers (run (fresh True) (skipped_trace @ [Skip])) =
     [\<lparr>tokenId = Some 1, hash = ''0x01'', status = Pending\<rparr>,
      \<lparr>tokenId = Some 2, hash = ''0x'', status = Failed\<rparr>,
      \<lparr>tokenId = None, hash = ''0x'', status = Failed\<rparr>] \<and>
   \<not> isComplete (run (fresh True) (skipped_trace @ [Skip, ReceiptResolved ''0x01''])) \<and>
   isTransferring (run (fresh True) (skipped_trace @ [Skip, ReceiptResolved ''0x01'', CheckDone]))"
proof -
  have "run (fresh True) (skipped_trace @ evs) = run at_skipped evs" for evs
    by (simp add: at_skipped_def run_def)
  then show ?thesis
    using at_skipped_def [symmetric]
    by (simp add: at_skipped_eq run_def skip_def js_index_def receiptResolved_def checkDone_def
        isComplete_def allTransfersConfirmed_def totalCount_def)
qed

end
